theory Spec2Isabelle
  imports Main "HOL-Library.Word"
begin

unbundle bit_operations_syntax

section \<open>Data model of routes_message.cpp\<close>

text \<open>
  \<^verbatim>\<open>size_t\<close> is taken as a 64-bit unsigned integer, \<^verbatim>\<open>uint8_t\<close> as a byte. A buffer
  is a pointer into memory: memory is a function from byte offsets to bytes, and a
  pointer is an offset (a natural number). The capacity that a caller passes along with
  a pointer is a separate \<^verbatim>\<open>size_t\<close>, exactly as in the source, so that a read or a
  write beyond that capacity is visible in the model.
\<close>

type_synonym size_t = "64 word"
type_synonym uint8_t = "8 word"
type_synonym uint32_t = "32 word"
type_synonym memory = "nat \<Rightarrow> uint8_t"

text \<open>
  The source signals every failure by throwing \<^verbatim>\<open>std::runtime_error\<close>. The message
  \<^verbatim>\<open>"buf_len"\<close> is \<open>BufferTooSmall\<close>, the two messages
  \<^verbatim>\<open>"Not enough bytes for the expected ..."\<close> are \<open>TruncatedRecord\<close>, and
  \<^verbatim>\<open>"Unknown route type in message"\<close> is \<open>UnknownRecordType\<close>. No statement of the
  source throws for a short version field; \<open>TruncatedHeader\<close> is the name the
  specification gives to that failure.
\<close>

datatype error = BufferTooSmall | TruncatedHeader | TruncatedRecord | UnknownRecordType

datatype ip_network_address_type =
  INAT_IPV4 | INAT_IPV4_GATEWAY | INAT_IPV6 | INAT_IPV6_GATEWAY

text \<open>The enumerators' values, as the byte that is written and compared.\<close>

fun inat_value :: "ip_network_address_type \<Rightarrow> uint8_t" where
  "inat_value INAT_IPV4 = 0x01"
| "inat_value INAT_IPV4_GATEWAY = 0x02"
| "inat_value INAT_IPV6 = 0x03"
| "inat_value INAT_IPV6_GATEWAY = 0x04"

text \<open>
  Modelled from the spec: the address and route types of asiotap and boost are not in
  src/. An address of a family is a fixed number of octets in network byte order (4 for
  IPv4, 16 for IPv6): it is a word of 32 or 128 bits, \<open>to_bytes\<close> lists its octets most
  significant first, and the constructor from a byte array is \<open>from_bytes\<close>. A network
  address is an address with a prefix length (the source passes an \<^verbatim>\<open>unsigned int\<close> to
  its constructor and casts what it reads back to \<^verbatim>\<open>uint8_t\<close>), a route is a network
  address with an optional gateway of the same family, and \<^verbatim>\<open>ip_route\<close> is the variant
  of the two families.
\<close>

type_synonym address_v4 = "32 word"
type_synonym address_v6 = "128 word"

definition to_bytes :: "'a::len word \<Rightarrow> uint8_t list" where
  "to_bytes w = map (\<lambda>i. ucast (drop_bit (8 * i) w)) (rev [0..<LENGTH('a) div 8])"

definition from_bytes :: "uint8_t list \<Rightarrow> 'a::len word" where
  "from_bytes bs = fold (\<lambda>b w. push_bit 8 w OR ucast b) bs 0"

record 'a base_ip_network_address =
  address :: 'a
  prefix_length :: "32 word"

record 'a base_ip_route =
  network_address :: "'a base_ip_network_address"
  gateway :: "'a option"

datatype ip_route =
  Route_v4 "address_v4 base_ip_route"
| Route_v6 "address_v6 base_ip_route"

section \<open>Reading and writing memory\<close>

text \<open>\<^verbatim>\<open>std::copy\<close> of a byte array to a pointer, and of a range of memory to an array.\<close>

fun store_bytes :: "memory \<Rightarrow> nat \<Rightarrow> uint8_t list \<Rightarrow> memory" where
  "store_bytes mem p [] = mem"
| "store_bytes mem p (b # bs) = store_bytes (mem(p := b)) (Suc p) bs"

definition load_bytes :: "memory \<Rightarrow> nat \<Rightarrow> nat \<Rightarrow> uint8_t list" where
  "load_bytes mem p n = map (\<lambda>i. mem (p + i)) [0..<n]"

section \<open>The visitor ip_network_address_representation\<close>

fun get_address_type_v4 :: "bool \<Rightarrow> ip_network_address_type" where
  "get_address_type_v4 has_gateway = (if has_gateway then INAT_IPV4_GATEWAY else INAT_IPV4)"

fun get_address_type_v6 :: "bool \<Rightarrow> ip_network_address_type" where
  "get_address_type_v6 has_gateway = (if has_gateway then INAT_IPV6_GATEWAY else INAT_IPV6)"

text \<open>The visitor's two members: the current position and the bytes left from there.\<close>

record ip_network_address_representation =
  m_buf :: nat
  m_buf_len :: size_t

text \<open>
  \<^verbatim>\<open>operator()\<close>, the writer of one route. The template parameter is the address
  type; its specialisation of \<^verbatim>\<open>get_address_type\<close> is the first argument. The memory
  after the call is returned also when the call throws.
\<close>

definition write_ip_route ::
  "(bool \<Rightarrow> ip_network_address_type) \<Rightarrow> memory \<Rightarrow> ip_network_address_representation \<Rightarrow>
   'a::len word base_ip_route \<Rightarrow> memory \<times> (error + size_t)" where
  "write_ip_route get_address_type mem v ir =
    (let ina = network_address ir;
         gw = gateway ir;
         prefix = (ucast (prefix_length ina) :: uint8_t);
         bytes = to_bytes (address ina);
         result_size = 2 + of_nat (length bytes)
     in if m_buf_len v < result_size then (mem, Inl BufferTooSmall)
        else
          let mem1 = mem(m_buf v := inat_value (get_address_type (gw \<noteq> None)));
              mem2 = mem1(m_buf v + 1 := prefix);
              mem3 = store_bytes mem2 (m_buf v + 2) bytes
          in case gw of
               None \<Rightarrow> (mem3, Inr result_size)
             | Some g \<Rightarrow>
                 let gateway_bytes = to_bytes g;
                     result_size' = result_size + of_nat (length gateway_bytes)
                 in if m_buf_len v < result_size' then (mem3, Inl BufferTooSmall)
                    else (store_bytes mem3 (m_buf v + 2 + length bytes) gateway_bytes,
                          Inr result_size'))"

text \<open>\<^verbatim>\<open>boost::apply_visitor\<close>: the call operator at the alternative the variant holds.\<close>

fun apply_visitor ::
  "memory \<Rightarrow> ip_network_address_representation \<Rightarrow> ip_route \<Rightarrow> memory \<times> (error + size_t)" where
  "apply_visitor mem v (Route_v4 ir) = write_ip_route get_address_type_v4 mem v ir"
| "apply_visitor mem v (Route_v6 ir) = write_ip_route get_address_type_v6 mem v ir"

text \<open>
  The template \<^verbatim>\<open>read_next_ip_route<AddressType>(has_gateway)\<close>: the reader of what
  follows a tag byte. It returns the route and the visitor's members after the call.
\<close>

definition read_next_ip_route_T ::
  "memory \<Rightarrow> bool \<Rightarrow> ip_network_address_representation \<Rightarrow>
   error + ('a::len word base_ip_route \<times> ip_network_address_representation)" where
  "read_next_ip_route_T mem has_gateway v =
    (if m_buf_len v = 0 then Inl TruncatedRecord
     else
       let prefix = (ucast (mem (m_buf v)) :: 32 word);
           v1 = v\<lparr>m_buf := m_buf v + 1, m_buf_len := m_buf_len v - 1\<rparr>;
           n = LENGTH('a) div 8
       in if m_buf_len v1 < of_nat n then Inl TruncatedRecord
          else
            let bytes = load_bytes mem (m_buf v1) n;
                v2 = v1\<lparr>m_buf := m_buf v1 + n, m_buf_len := m_buf_len v1 - of_nat n\<rparr>
            in if has_gateway then
                 if m_buf_len v2 < of_nat n then Inl TruncatedRecord
                 else
                   let gateway_bytes = load_bytes mem (m_buf v2) n;
                       v3 = v2\<lparr>m_buf := m_buf v2 + n, m_buf_len := m_buf_len v2 - of_nat n\<rparr>
                   in Inr (\<lparr>network_address = \<lparr>address = from_bytes bytes, prefix_length = prefix\<rparr>,
                            gateway = Some (from_bytes gateway_bytes)\<rparr>, v3)
               else
                 Inr (\<lparr>network_address = \<lparr>address = from_bytes bytes, prefix_length = prefix\<rparr>,
                       gateway = None\<rparr>, v2))"

text \<open>
  \<^verbatim>\<open>read_next_ip_route(ir)\<close>: \<open>None\<close> is the return value \<^verbatim>\<open>false\<close>, \<open>Some\<close> carries
  the route assigned to \<^verbatim>\<open>ir\<close> and the members after the call. Both IPv6 cases pass
  the comparison of the tag with \<^verbatim>\<open>INAT_IPV4_GATEWAY\<close>, as line 216 of the source does.
\<close>

definition read_next_ip_route ::
  "memory \<Rightarrow> ip_network_address_representation \<Rightarrow>
   error + (ip_route \<times> ip_network_address_representation) option" where
  "read_next_ip_route mem v =
    (if m_buf_len v = 0 then Inr None
     else
       let type = mem (m_buf v);
           v1 = v\<lparr>m_buf := m_buf v + 1, m_buf_len := m_buf_len v - 1\<rparr>
       in if type = inat_value INAT_IPV4 \<or> type = inat_value INAT_IPV4_GATEWAY then
            (case read_next_ip_route_T mem (type = inat_value INAT_IPV4_GATEWAY) v1 of
               Inl e \<Rightarrow> Inl e
             | Inr (ir, v2) \<Rightarrow> Inr (Some (Route_v4 ir, v2)))
          else if type = inat_value INAT_IPV6 \<or> type = inat_value INAT_IPV6_GATEWAY then
            (case read_next_ip_route_T mem (type = inat_value INAT_IPV4_GATEWAY) v1 of
               Inl e \<Rightarrow> Inl e
             | Inr (ir, v2) \<Rightarrow> Inr (Some (Route_v6 ir, v2)))
          else Inl UnknownRecordType)"

lemma word_pred_less: "(x::'a::len word) \<noteq> 0 \<Longrightarrow> x - 1 < x"
  by (simp add: word_less_nat_alt unat_minus_one unat_gt_0)

lemma word_sub_le_less: "(y::'a::len word) \<le> x \<Longrightarrow> x < z \<Longrightarrow> x - y < z"
  using word_sub_le [of y x] by simp

lemma read_next_ip_route_T_less:
  assumes "read_next_ip_route_T mem g v = Inr (ir, v')"
  shows "m_buf_len v' < m_buf_len v"
proof -
  define n :: size_t where "n = of_nat (LENGTH('a) div 8)"
  define l1 where "l1 = m_buf_len v - 1"
  define l2 where "l2 = l1 - n"
  define l3 where "l3 = l2 - n"
  from assms have nz: "m_buf_len v \<noteq> 0"
    by (auto simp: read_next_ip_route_T_def split: if_splits)
  from assms nz have le1: "n \<le> l1"
    by (auto simp: read_next_ip_route_T_def Let_def n_def l1_def not_less split: if_splits)
  from assms nz le1 have fin: "(g \<and> n \<le> l2 \<and> m_buf_len v' = l3) \<or> (\<not> g \<and> m_buf_len v' = l2)"
    unfolding read_next_ip_route_T_def Let_def l3_def l2_def l1_def n_def
    by (simp add: not_less split: if_splits) auto
  have a: "l1 < m_buf_len v" unfolding l1_def by (rule word_pred_less [OF nz])
  have b: "l2 < m_buf_len v" unfolding l2_def by (rule word_sub_le_less [OF le1 a])
  from fin show ?thesis
  proof
    assume "g \<and> n \<le> l2 \<and> m_buf_len v' = l3"
    then show ?thesis unfolding l3_def using word_sub_le_less [OF _ b, of n] by simp
  next
    assume "\<not> g \<and> m_buf_len v' = l2"
    then show ?thesis using b by simp
  qed
qed

lemma read_next_ip_route_less:
  "read_next_ip_route mem v = Inr (Some (ir, v')) \<Longrightarrow> m_buf_len v' < m_buf_len v"
  unfolding read_next_ip_route_def Let_def
  by (auto split: if_splits sum.splits simp: not_less dest!: read_next_ip_route_T_less
       dest: word_pred_less[of "m_buf_len v"])

section \<open>routes_message\<close>

text \<open>
  The loop of \<^verbatim>\<open>routes_message::routes\<close>:
  \<^verbatim>\<open>while (deserializer.read_next_ip_route(ir)) result.insert(ir);\<close>
  An exception thrown by the reader leaves the loop and the function.
\<close>

function read_routes ::
  "memory \<Rightarrow> ip_network_address_representation \<Rightarrow> ip_route set \<Rightarrow> error + ip_route set" where
  "read_routes mem v result =
    (case read_next_ip_route mem v of
       Inl e \<Rightarrow> Inl e
     | Inr None \<Rightarrow> Inr result
     | Inr (Some (ir, v')) \<Rightarrow> read_routes mem v' (insert ir result))"
  by pat_completeness auto
termination
  by (relation "measure (\<lambda>(mem, v, result). unat (m_buf_len v))")
     (auto dest: read_next_ip_route_less simp: word_less_nat_alt)

declare read_routes.simps [simp del]

text \<open>
  Modelled from the spec: the base class \<^verbatim>\<open>message\<close> is not in src/. The spec says the
  codec consumes a byte buffer plus a declared payload length from the envelope:
  \<open>payload\<close> is the memory seen from the pointer \<^verbatim>\<open>payload()\<close> (offset 0 is the first
  payload byte) and \<open>length_m\<close> is the value of \<^verbatim>\<open>length()\<close>.
\<close>

record message =
  payload :: memory
  length_m :: size_t

record routes_message = message +
  m_routes_cache :: "ip_route set option"

text \<open>\<^verbatim>\<open>routes_message::version\<close>: \<^verbatim>\<open>ntohl\<close> of the first four payload bytes.\<close>

definition version :: "routes_message \<Rightarrow> uint32_t" where
  "version m = from_bytes (load_bytes (payload m) 0 4)"

text \<open>
  \<^verbatim>\<open>routes_message::routes\<close>. The cache is mutable, so the message after the call is
  returned with the result; an exception leaves the message as it was.
\<close>

definition routes :: "routes_message \<Rightarrow> routes_message \<times> (error + ip_route set)" where
  "routes m =
    (case m_routes_cache m of
       Some cached \<Rightarrow> (m, Inr cached)
     | None \<Rightarrow>
         let pbuf = 4;
             pbuf_len = length_m m - 4
         in case read_routes (payload m) \<lparr>m_buf = pbuf, m_buf_len = pbuf_len\<rparr> {} of
              Inl e \<Rightarrow> (m, Inl e)
            | Inr result \<Rightarrow> (m\<lparr>m_routes_cache := Some result\<rparr>, Inr result))"

text \<open>
  The two constructors run the base class's constructor, leave the cache empty and
  call \<^verbatim>\<open>routes()\<close>; an exception of that call is an exception of the constructor.
  \<open>routes_message_of_message\<close> is the constructor from a \<^verbatim>\<open>message\<close>. For the
  constructor from a raw buffer, the base constructor \<^verbatim>\<open>message(buf, buf_len)\<close>, which
  is not in src/, is the parameter \<open>message_ctor\<close>.
\<close>

definition routes_message_of_message :: "message \<Rightarrow> error + routes_message" where
  "routes_message_of_message msg =
    (case routes \<lparr>payload = payload msg, length_m = length_m msg, m_routes_cache = None\<rparr> of
       (m, Inl e) \<Rightarrow> Inl e
     | (m, Inr result) \<Rightarrow> Inr m)"

definition routes_message_of_buffer ::
  "(memory \<Rightarrow> size_t \<Rightarrow> error + message) \<Rightarrow> memory \<Rightarrow> size_t \<Rightarrow> error + routes_message" where
  "routes_message_of_buffer message_ctor buf buf_len =
    (case message_ctor buf buf_len of
       Inl e \<Rightarrow> Inl e
     | Inr msg \<Rightarrow> routes_message_of_message msg)"

section \<open>routes_message::write\<close>

text \<open>
  The loop over the route set, \<^verbatim>\<open>for (auto&& route : routes)\<close>. The set is given as
  the list of its elements in iteration order.
\<close>

fun write_routes ::
  "memory \<Rightarrow> nat \<Rightarrow> size_t \<Rightarrow> size_t \<Rightarrow> ip_route list \<Rightarrow> memory \<times> (error + size_t)" where
  "write_routes mem pbuf pbuf_len required_size [] = (mem, Inr required_size)"
| "write_routes mem pbuf pbuf_len required_size (route # rest) =
    (case apply_visitor mem \<lparr>m_buf = pbuf, m_buf_len = pbuf_len\<rparr> route of
       (mem', Inl e) \<Rightarrow> (mem', Inl e)
     | (mem', Inr count) \<Rightarrow>
         write_routes mem' (pbuf + unat count) (pbuf_len - count) (required_size + count) rest)"

text \<open>
  Modelled from the spec: \<^verbatim>\<open>message::write\<close>, the call that ends
  \<^verbatim>\<open>routes_message::write\<close>, is not in src/. The spec says that the encoder returns
  the total number of bytes written (version field plus all records) and that the
  external framing component finalises its own header from that count; the header
  bytes are not part of this model.
\<close>

definition message_write :: "memory \<Rightarrow> size_t \<Rightarrow> size_t \<Rightarrow> memory \<times> (error + size_t)" where
  "message_write mem buf_len len = (mem, Inr len)"

text \<open>
  \<^verbatim>\<open>routes_message::write\<close> (\<open>write\<close> is a keyword of Isabelle, hence the longer
  name). \<open>HEADER_LENGTH\<close>, a constant of the base class, is a
  parameter; \<open>buf\<close> is offset 0 of the memory. The version, which the source casts to
  \<^verbatim>\<open>uint32_t\<close>, is stored in network byte order.
\<close>

definition routes_message_write ::
  "size_t \<Rightarrow> memory \<Rightarrow> size_t \<Rightarrow> uint32_t \<Rightarrow> ip_route list \<Rightarrow> memory \<times> (error + size_t)" where
  "routes_message_write HEADER_LENGTH mem buf_len vers routes_list =
    (if buf_len < HEADER_LENGTH then (mem, Inl BufferTooSmall)
     else
       let pbuf = unat HEADER_LENGTH;
           pbuf_len = buf_len - HEADER_LENGTH;
           mem1 = store_bytes mem pbuf (to_bytes vers);
           required_size = 4;
           pbuf = pbuf + 4;
           pbuf_len = pbuf_len - 4
       in case write_routes mem1 pbuf pbuf_len required_size routes_list of
            (mem2, Inl e) \<Rightarrow> (mem2, Inl e)
          | (mem2, Inr required_size) \<Rightarrow> message_write mem2 buf_len required_size)"

section \<open>Observers used to state the properties\<close>

text \<open>
  What the writer puts on the wire for a route, field by field, read off the variant:
  the tag byte, the prefix-length byte, the octets of the network address and, when
  there is one, the octets of the gateway. \<open>address_width\<close> is the size of the
  family's byte array.
\<close>

fun route_tag :: "ip_route \<Rightarrow> uint8_t" where
  "route_tag (Route_v4 ir) = inat_value (get_address_type_v4 (gateway ir \<noteq> None))"
| "route_tag (Route_v6 ir) = inat_value (get_address_type_v6 (gateway ir \<noteq> None))"

fun route_prefix :: "ip_route \<Rightarrow> uint8_t" where
  "route_prefix (Route_v4 ir) = ucast (prefix_length (network_address ir))"
| "route_prefix (Route_v6 ir) = ucast (prefix_length (network_address ir))"

fun route_address_bytes :: "ip_route \<Rightarrow> uint8_t list" where
  "route_address_bytes (Route_v4 ir) = to_bytes (address (network_address ir))"
| "route_address_bytes (Route_v6 ir) = to_bytes (address (network_address ir))"

fun route_gateway_bytes :: "ip_route \<Rightarrow> uint8_t list option" where
  "route_gateway_bytes (Route_v4 ir) = map_option to_bytes (gateway ir)"
| "route_gateway_bytes (Route_v6 ir) = map_option to_bytes (gateway ir)"

fun address_width :: "ip_route \<Rightarrow> nat" where
  "address_width (Route_v4 ir) = 4"
| "address_width (Route_v6 ir) = 16"

text \<open>
  The number of bytes of a route's record: tag, prefix length, network address and,
  when there is one, gateway.
\<close>

definition record_size :: "ip_route \<Rightarrow> nat" where
  "record_size r =
    (case route_gateway_bytes r of
       None \<Rightarrow> 2 + address_width r
     | Some g \<Rightarrow> 2 + address_width r + address_width r)"

text \<open>
  The bytes of a route's record in wire order, and the routes whose record the reader
  can take back: the prefix length fits a byte, and an IPv6 route has no gateway.
\<close>

definition encode_route :: "ip_route \<Rightarrow> uint8_t list" where
  "encode_route r =
     route_tag r # route_prefix r # route_address_bytes r @
     (case route_gateway_bytes r of None \<Rightarrow> [] | Some g \<Rightarrow> g)"

fun decodable :: "ip_route \<Rightarrow> bool" where
  "decodable (Route_v4 ir) \<longleftrightarrow> prefix_length (network_address ir) < 256"
| "decodable (Route_v6 ir) \<longleftrightarrow> prefix_length (network_address ir) < 256 \<and> gateway ir = None"


text \<open>A memory that holds the given bytes from offset 0 on and zero elsewhere.\<close>

definition buffer_of :: "uint8_t list \<Rightarrow> memory" where
  "buffer_of bs = (\<lambda>i. if i < length bs then bs ! i else 0)"

section \<open>Example inputs\<close>

text \<open>
  The route 2001:db8::/32 via fe80::1, the route 10.0.0.0/8 without a gateway, and the
  route 2001:db8::/32 without a gateway.
\<close>

definition route_2001_db8_via_fe80_1 :: ip_route where
  "route_2001_db8_via_fe80_1 =
     Route_v6 \<lparr>network_address =
                 \<lparr>address = 0x20010db8000000000000000000000000, prefix_length = 32\<rparr>,
               gateway = Some 0xfe800000000000000000000000000001\<rparr>"

definition route_2001_db8 :: ip_route where
  "route_2001_db8 =
     Route_v6 \<lparr>network_address =
                 \<lparr>address = 0x20010db8000000000000000000000000, prefix_length = 32\<rparr>,
               gateway = None\<rparr>"

definition route_10 :: ip_route where
  "route_10 =
     Route_v4 \<lparr>network_address = \<lparr>address = 0x0A000000, prefix_length = 8\<rparr>, gateway = None\<rparr>"

text \<open>
  The message an envelope hands to the decoder when the payload starts at offset
  \<open>off\<close> of a memory and its declared length is \<open>len\<close>; the cache is empty.
\<close>

definition message_at :: "nat \<Rightarrow> memory \<Rightarrow> size_t \<Rightarrow> routes_message" where
  "message_at off mem len =
     \<lparr>payload = (\<lambda>i. mem (off + i)), length_m = len, m_routes_cache = None\<rparr>"

text \<open>Payloads: version 1 followed by the bytes given.\<close>

definition payload_one_ipv4 :: memory where
  "payload_one_ipv4 = buffer_of [0, 0, 0, 1, 1, 8, 10, 0, 0, 0]"

definition payload_bad_tag :: memory where
  "payload_bad_tag = buffer_of [0, 0, 0, 1, 5]"

definition payload_torn_ipv6_gateway :: memory where
  "payload_torn_ipv6_gateway =
     buffer_of [0, 0, 0, 1, 4, 32, 0x20, 0x01, 0x0d, 0xb8, 0, 0, 0, 0, 0, 0, 0, 0, 0, 0, 0, 0]"

definition record_ipv6_gateway :: memory where
  "record_ipv6_gateway =
     buffer_of [4, 32, 0x20, 0x01, 0x0d, 0xb8, 0, 0, 0, 0, 0, 0, 0, 0, 0, 0, 0, 0,
                0xfe, 0x80, 0, 0, 0, 0, 0, 0, 0, 0, 0, 0, 0, 0, 0, 1]"

text \<open>A buffer with four header bytes ahead of the payload \<open>payload_bad_tag\<close>.\<close>

definition buffer_bad_tag :: memory where
  "buffer_bad_tag = store_bytes (\<lambda>_. 0) 4 [0, 0, 0, 1, 5]"

text \<open>
  A stand-in for the base constructor \<^verbatim>\<open>message(buf, buf_len)\<close> in examples: a header
  of four bytes, the rest of the buffer is the payload.
\<close>

definition example_message_ctor :: "memory \<Rightarrow> size_t \<Rightarrow> error + message" where
  "example_message_ctor buf buf_len =
     (if buf_len < 4 then Inl BufferTooSmall
      else Inr \<lparr>payload = (\<lambda>i. buf (4 + i)), length_m = buf_len - 4\<rparr>)"

section \<open>Basic facts\<close>

lemmas eval_defs = routes_message_write_def write_ip_route_def message_write_def to_bytes_def
  routes_def read_routes.simps read_next_ip_route_def read_next_ip_route_T_def load_bytes_def
  from_bytes_def buffer_of_def message_at_def version_def routes_message_of_message_def
  routes_message_of_buffer_def Let_def upt_rec

lemmas example_defs = route_2001_db8_via_fe80_1_def route_2001_db8_def route_10_def
  payload_one_ipv4_def payload_bad_tag_def payload_torn_ipv6_gateway_def
  record_ipv6_gateway_def example_message_ctor_def

lemma store_bytes_apply:
  "store_bytes mem p bs i = (if p \<le> i \<and> i < p + length bs then bs ! (i - p) else mem i)"
proof (induction bs arbitrary: mem p)
  case Nil
  then show ?case by auto
next
  case (Cons b bs)
  have "store_bytes (mem(p := b)) (Suc p) bs i =
        (if Suc p \<le> i \<and> i < Suc p + length bs then bs ! (i - Suc p) else (mem(p := b)) i)"
    by (rule Cons.IH)
  then show ?case by (auto simp: nth_Cons')
qed

lemma length_to_bytes: "length (to_bytes (w::'a::len word)) = LENGTH('a) div 8"
  by (simp add: to_bytes_def)

lemma length_route_address_bytes: "length (route_address_bytes r) = address_width r"
  by (cases r) (simp_all add: length_to_bytes)

lemma length_route_gateway_bytes:
  "route_gateway_bytes r = Some g \<Longrightarrow> length g = address_width r"
  by (cases r) (auto simp: length_to_bytes)

lemma length_encode_route: "length (encode_route r) = record_size r"
  by (cases r) (auto simp: encode_route_def length_to_bytes record_size_def split: option.splits)

lemma store_bytes_append:
  "store_bytes mem p (xs @ ys) = store_bytes (store_bytes mem p xs) (p + length xs) ys"
  by (induction xs arbitrary: mem p) simp_all

lemma load_store_bytes: "load_bytes (store_bytes mem p bs) p (length bs) = bs"
  by (rule nth_equalityI) (simp_all add: load_bytes_def store_bytes_apply)

lemma load_bytes_shift: "load_bytes (\<lambda>i. mem (off + i)) p n = load_bytes mem (off + p) n"
  by (simp add: load_bytes_def add.assoc)

lemma load_bytes_add:
  "load_bytes mem p (m + n) = load_bytes mem p m @ load_bytes mem (p + m) n"
  by (rule nth_equalityI) (auto simp: load_bytes_def nth_append)

lemma load_bytes_append_eq:
  assumes "load_bytes mem p (length (xs @ ys)) = xs @ ys"
  shows "load_bytes mem p (length xs) = xs \<and> load_bytes mem (p + length xs) (length ys) = ys"
proof -
  have "load_bytes mem p (length xs) @ load_bytes mem (p + length xs) (length ys) = xs @ ys"
    using assms by (simp add: load_bytes_add)
  moreover have "length (load_bytes mem p (length xs)) = length xs" by (simp add: load_bytes_def)
  ultimately show ?thesis by simp
qed

lemma load_bytes_Cons_eq:
  assumes "load_bytes mem p (length (x # xs)) = x # xs"
  shows "mem p = x \<and> load_bytes mem (Suc p) (length xs) = xs"
  using load_bytes_append_eq [of mem p "[x]" xs] assms by (simp add: load_bytes_def)


text \<open>The octets of an address and the address of these octets.\<close>

lemma bit_fold_bytes:
  "bit (fold (\<lambda>b w. push_bit 8 w OR ucast b) bs (w0 :: 'a::len word)) n \<longleftrightarrow>
     n < LENGTH('a) \<and>
     (if n < 8 * length bs then bit (bs ! (length bs - 1 - n div 8) :: uint8_t) (n mod 8)
      else bit w0 (n - 8 * length bs))"
proof (induction bs arbitrary: w0)
  case Nil
  then show ?case by (auto dest: bit_imp_le_length)
next
  case (Cons b bs)
  let ?w = "push_bit 8 w0 OR ucast b :: 'a word"
  have step: "bit (fold (\<lambda>b w. push_bit 8 w OR ucast b) (b # bs) w0) n \<longleftrightarrow>
     n < LENGTH('a) \<and>
     (if n < 8 * length bs then bit (bs ! (length bs - 1 - n div 8)) (n mod 8)
      else bit ?w (n - 8 * length bs))"
    using Cons.IH [of ?w] by simp
  show ?case
  proof (cases "n < 8 * length bs")
    case True
    then have "n div 8 < length bs" by simp
    then have "(b # bs) ! (length (b # bs) - 1 - n div 8) = bs ! (length bs - 1 - n div 8)"
      by (simp add: nth_Cons')
    with True step show ?thesis by simp
  next
    case ge: False
    then obtain m where n: "n = 8 * length bs + m" using le_Suc_ex [of "8 * length bs" n] by auto
    have sub: "n - 8 * length bs = m" using n by simp
    have step': "bit (fold (\<lambda>b w. push_bit 8 w OR ucast b) (b # bs) w0) n \<longleftrightarrow>
       n < LENGTH('a) \<and> bit ?w m"
      using step ge by (simp only: sub if_False)
    show ?thesis
    proof (cases "m < 8")
      case True
      have w: "bit ?w m \<longleftrightarrow> m < LENGTH('a) \<and> bit b m"
        using True by (auto simp: bit_simps)
      have dm: "n div 8 = length bs" "n mod 8 = m" using True n by simp_all
      have lt: "n < 8 * length (b # bs)" using True n by simp
      have "(b # bs) ! (length (b # bs) - 1 - n div 8) = b" by (simp add: dm)
      then have "(if n < 8 * length (b # bs)
                  then bit ((b # bs) ! (length (b # bs) - 1 - n div 8)) (n mod 8)
                  else bit w0 (n - 8 * length (b # bs))) \<longleftrightarrow> bit b m"
        using lt by (simp only: if_True dm)
      then show ?thesis using step' w n by auto
    next
      case False
      have w: "bit ?w m \<longleftrightarrow> m < LENGTH('a) \<and> bit w0 (m - 8)"
        using False by (auto simp: bit_simps dest: bit_imp_le_length)
      have s8: "n - 8 * length (b # bs) = m - 8" using n by simp
      have nlt: "\<not> n < 8 * length (b # bs)" using False n by simp
      have "(if n < 8 * length (b # bs)
                  then bit ((b # bs) ! (length (b # bs) - 1 - n div 8)) (n mod 8)
                  else bit w0 (n - 8 * length (b # bs))) \<longleftrightarrow> bit w0 (m - 8)"
        using nlt by (simp only: if_False s8)
      then show ?thesis using step' w n by auto
    qed
  qed
qed

lemma nth_to_bytes:
  "k < LENGTH('a) div 8 \<Longrightarrow>
   to_bytes (w :: 'a::len word) ! k = ucast (drop_bit (8 * (LENGTH('a) div 8 - 1 - k)) w)"
  by (simp add: to_bytes_def rev_nth)

lemma from_bytes_to_bytes:
  assumes "8 dvd LENGTH('a::len)"
  shows "from_bytes (to_bytes (w :: 'a word)) = w"
proof (rule bit_word_eqI)
  fix n assume n: "n < LENGTH('a)"
  define N where "N = LENGTH('a) div 8"
  from assms have L: "LENGTH('a) = 8 * N" by (auto simp: N_def)
  from n L have d: "n div 8 < N" by simp
  have len: "length (to_bytes w) = N" by (simp add: to_bytes_def N_def)
  have idx: "N - 1 - (N - 1 - n div 8) = n div 8" using d by simp
  have "bit (from_bytes (to_bytes w) :: 'a word) n \<longleftrightarrow>
        bit (to_bytes w ! (N - 1 - n div 8)) (n mod 8)"
    unfolding from_bytes_def bit_fold_bytes using n L by (simp add: len)
  also have "to_bytes w ! (N - 1 - n div 8) = ucast (drop_bit (8 * (n div 8)) w)"
    using d nth_to_bytes [of "N - 1 - n div 8" w] by (simp add: idx flip: N_def)
  also have "bit (ucast (drop_bit (8 * (n div 8)) w) :: uint8_t) (n mod 8) \<longleftrightarrow>
             bit w (8 * (n div 8) + n mod 8)"
    by (simp add: bit_simps)
  finally show "bit (from_bytes (to_bytes w) :: 'a word) n \<longleftrightarrow> bit w n" by simp
qed

lemma ucast_prefix_length:
  assumes "(pl :: 32 word) < 256"
  shows "(ucast (ucast pl :: uint8_t) :: 32 word) = pl"
proof (rule unsigned_word_eqI [where ?'a = nat])
  from assms have "unat pl < 256" by (simp add: word_less_nat_alt)
  then show "unat (ucast (ucast pl :: uint8_t) :: 32 word) = unat pl"
    by (simp add: unsigned_ucast_eq unsigned_take_bit_eq take_bit_nat_eq_self)
qed


section \<open>The writer of one route\<close>

lemma record_size_bounds: "6 \<le> record_size r \<and> record_size r \<le> 34"
  by (cases r) (auto simp: record_size_def split: option.splits)

lemma snd_apply_visitor:
  "snd (apply_visitor mem v r) =
     (if record_size r \<le> unat (m_buf_len v) then Inr (of_nat (record_size r))
      else Inl BufferTooSmall)"
proof (cases r)
  case (Route_v4 ir)
  show ?thesis
  proof (cases "gateway ir")
    case None
    then show ?thesis using Route_v4
      by (auto simp: write_ip_route_def Let_def length_to_bytes word_less_nat_alt record_size_def)
  next
    case (Some g)
    then show ?thesis using Route_v4
      by (auto simp: write_ip_route_def Let_def length_to_bytes word_less_nat_alt record_size_def)
  qed
next
  case (Route_v6 ir)
  show ?thesis
  proof (cases "gateway ir")
    case None
    then show ?thesis using Route_v6
      by (auto simp: write_ip_route_def Let_def length_to_bytes word_less_nat_alt record_size_def)
  next
    case (Some g)
    then show ?thesis using Route_v6
      by (auto simp: write_ip_route_def Let_def length_to_bytes word_less_nat_alt record_size_def)
  qed
qed

lemma unat_sub_record_size:
  assumes "record_size r \<le> unat (len :: size_t)"
  shows "unat (len - of_nat (record_size r)) = unat len - record_size r"
proof -
  have "record_size r < 2 ^ 64" using record_size_bounds [of r] by simp
  then have u: "unat (of_nat (record_size r) :: size_t) = record_size r"
    by (simp add: unat_of_nat)
  with assms have "(of_nat (record_size r) :: size_t) \<le> len" by (simp add: word_le_nat_alt)
  then show ?thesis using u by (simp add: unat_sub)
qed

lemma snd_write_routes:
  "snd (write_routes mem p len req rs) =
     (if sum_list (map record_size rs) \<le> unat len
      then Inr (req + of_nat (sum_list (map record_size rs)))
      else Inl BufferTooSmall)"
proof (induction rs arbitrary: mem p len req)
  case Nil
  then show ?case by simp
next
  case (Cons r rs)
  let ?v = "\<lparr>m_buf = p, m_buf_len = len\<rparr>"
  obtain mem' res where av: "apply_visitor mem ?v r = (mem', res)" by (cases "apply_visitor mem ?v r")
  have res: "res = (if record_size r \<le> unat len then Inr (of_nat (record_size r)) else Inl BufferTooSmall)"
    using snd_apply_visitor [of mem ?v r] av by simp
  show ?case
  proof (cases "record_size r \<le> unat len")
    case True
    have "snd (write_routes mem p len req (r # rs)) =
          snd (write_routes mem' (p + unat (of_nat (record_size r) :: size_t))
                 (len - of_nat (record_size r)) (req + of_nat (record_size r)) rs)"
      using av res True by simp
    also have "\<dots> = (if sum_list (map record_size rs) \<le> unat (len - of_nat (record_size r))
        then Inr (req + of_nat (record_size r) + of_nat (sum_list (map record_size rs)))
        else Inl BufferTooSmall)"
      by (rule Cons.IH)
    finally show ?thesis using True unat_sub_record_size [OF True]
      by (auto simp: algebra_simps)
  next
    case False
    then show ?thesis using av res by simp
  qed
qed

lemma snd_routes_message_write:
  "snd (routes_message_write HL mem buf_len vers rs) =
     (if buf_len < HL then Inl BufferTooSmall
      else if sum_list (map record_size rs) \<le> unat (buf_len - HL - 4)
      then Inr (4 + of_nat (sum_list (map record_size rs)))
      else Inl BufferTooSmall)"
proof (cases "buf_len < HL")
  case True
  then show ?thesis by (simp add: routes_message_write_def)
next
  case False
  let ?w = "write_routes (store_bytes mem (unat HL) (to_bytes vers)) (unat HL + 4)
              (buf_len - HL - 4) 4 rs"
  have "snd (routes_message_write HL mem buf_len vers rs) = snd ?w"
    using False
    by (cases ?w) (auto simp: routes_message_write_def Let_def message_write_def split: sum.splits)
  then show ?thesis using False by (simp only: snd_write_routes if_False)
qed


lemma unat_of_nat_record_size: "unat (of_nat (record_size r) :: size_t) = record_size r"
  using record_size_bounds [of r] by (simp add: unat_of_nat)

lemma fst_apply_visitor_eq:
  "fst (apply_visitor mem v r) =
     (if unat (m_buf_len v) < 2 + address_width r then mem
      else if record_size r \<le> unat (m_buf_len v)
      then store_bytes mem (m_buf v) (encode_route r)
      else store_bytes mem (m_buf v) (route_tag r # route_prefix r # route_address_bytes r))"
proof (cases r)
  case (Route_v4 ir)
  show ?thesis
  proof (cases "gateway ir")
    case None
    then show ?thesis using Route_v4
      by (simp add: write_ip_route_def Let_def length_to_bytes word_less_nat_alt encode_route_def
          record_size_def)
  next
    case (Some g)
    then show ?thesis using Route_v4
      by (simp add: write_ip_route_def Let_def length_to_bytes word_less_nat_alt encode_route_def
          record_size_def store_bytes_append)
  qed
next
  case (Route_v6 ir)
  show ?thesis
  proof (cases "gateway ir")
    case None
    then show ?thesis using Route_v6
      by (simp add: write_ip_route_def Let_def length_to_bytes word_less_nat_alt encode_route_def
          record_size_def)
  next
    case (Some g)
    then show ?thesis using Route_v6
      by (simp add: write_ip_route_def Let_def length_to_bytes word_less_nat_alt encode_route_def
          record_size_def store_bytes_append)
  qed
qed

lemma fst_apply_visitor:
  assumes "record_size r \<le> unat (m_buf_len v)"
  shows "fst (apply_visitor mem v r) = store_bytes mem (m_buf v) (encode_route r)"
proof (cases r)
  case (Route_v4 ir)
  show ?thesis
  proof (cases "gateway ir")
    case None
    then show ?thesis using Route_v4 assms
      by (simp add: write_ip_route_def Let_def length_to_bytes word_less_nat_alt encode_route_def
          record_size_def)
  next
    case (Some g)
    then show ?thesis using Route_v4 assms
      by (simp add: write_ip_route_def Let_def length_to_bytes word_less_nat_alt encode_route_def
          record_size_def
          store_bytes_append)
  qed
next
  case (Route_v6 ir)
  show ?thesis
  proof (cases "gateway ir")
    case None
    then show ?thesis using Route_v6 assms
      by (simp add: write_ip_route_def Let_def length_to_bytes word_less_nat_alt encode_route_def
          record_size_def)
  next
    case (Some g)
    then show ?thesis using Route_v6 assms
      by (simp add: write_ip_route_def Let_def length_to_bytes word_less_nat_alt encode_route_def
          record_size_def
          store_bytes_append)
  qed
qed

lemma apply_visitor_frame:
  assumes "i < m_buf v \<or> m_buf v + unat (m_buf_len v) \<le> i"
  shows "fst (apply_visitor mem v r) i = mem i"
  using assms
  by (auto simp: fst_apply_visitor_eq store_bytes_apply length_encode_route
      length_route_address_bytes)

lemma fst_write_routes:
  assumes "sum_list (map record_size rs) \<le> unat len"
  shows "fst (write_routes mem p len req rs) = store_bytes mem p (concat (map encode_route rs))"
  using assms
proof (induction rs arbitrary: mem p len req)
  case Nil
  then show ?case by simp
next
  case (Cons r rs)
  let ?v = "\<lparr>m_buf = p, m_buf_len = len\<rparr>"
  from Cons.prems have fit: "record_size r \<le> unat len"
    and rest: "sum_list (map record_size rs) \<le> unat len - record_size r"
    by (simp_all)
  obtain mem' res where av: "apply_visitor mem ?v r = (mem', res)"
    by (cases "apply_visitor mem ?v r")
  have res: "res = Inr (of_nat (record_size r))"
    using snd_apply_visitor [of mem ?v r] av fit by (simp)
  have mem': "mem' = store_bytes mem p (encode_route r)"
    using fst_apply_visitor [of r ?v mem] av fit by (simp)
  have "fst (write_routes mem p len req (r # rs)) =
        fst (write_routes mem' (p + record_size r) (len - of_nat (record_size r))
               (req + of_nat (record_size r)) rs)"
    using av res by (simp add: unat_of_nat_record_size)
  also have "\<dots> = store_bytes mem' (p + record_size r) (concat (map encode_route rs))"
    using rest by (intro Cons.IH) (simp add: unat_sub_record_size [OF fit])
  finally show ?case
    by (simp add: mem' store_bytes_append length_encode_route)
qed

lemma write_routes_frame:
  assumes "i < p \<or> p + unat len \<le> i"
  shows "fst (write_routes mem p len req rs) i = mem i"
  using assms
proof (induction rs arbitrary: mem p len req)
  case Nil
  then show ?case by simp
next
  case (Cons r rs)
  let ?v = "\<lparr>m_buf = p, m_buf_len = len\<rparr>"
  obtain mem' res where av: "apply_visitor mem ?v r = (mem', res)"
    by (cases "apply_visitor mem ?v r")
  have m: "mem' i = mem i"
    using apply_visitor_frame [of i ?v mem r] av Cons.prems by simp
  show ?case
  proof (cases "record_size r \<le> unat len")
    case True
    then have res: "res = Inr (of_nat (record_size r))"
      using snd_apply_visitor [of mem ?v r] av by simp
    have "fst (write_routes mem p len req (r # rs)) i =
          fst (write_routes mem' (p + record_size r) (len - of_nat (record_size r))
                 (req + of_nat (record_size r)) rs) i"
      using av res by (simp add: unat_of_nat_record_size)
    also have "\<dots> = mem' i"
      using Cons.prems True by (intro Cons.IH) (auto simp: unat_sub_record_size)
    finally show ?thesis using m by simp
  next
    case False
    then have "res = Inl BufferTooSmall"
      using snd_apply_visitor [of mem ?v r] av by simp
    then show ?thesis using av m by simp
  qed
qed

lemma fst_routes_message_write:
  assumes "HL \<le> buf_len"
    and "4 + sum_list (map record_size rs) \<le> unat buf_len - unat HL"
  shows "fst (routes_message_write HL mem buf_len vers rs) =
         store_bytes mem (unat HL) (to_bytes vers @ concat (map encode_route rs))"
proof -
  from assms have u: "unat (buf_len - HL - 4) = unat buf_len - unat HL - 4"
    by (simp add: unat_sub word_le_nat_alt)
  let ?w = "write_routes (store_bytes mem (unat HL) (to_bytes vers)) (unat HL + 4)
              (buf_len - HL - 4) 4 rs"
  from assms u have fit: "sum_list (map record_size rs) \<le> unat (buf_len - HL - 4)" by simp
  have "fst (routes_message_write HL mem buf_len vers rs) = fst ?w"
    using assms(1) snd_write_routes [of "store_bytes mem (unat HL) (to_bytes vers)" "unat HL + 4"
        "buf_len - HL - 4" 4 rs] fit
    by (cases ?w) (auto simp: routes_message_write_def Let_def message_write_def not_less
        split: sum.splits)
  also have "\<dots> = store_bytes (store_bytes mem (unat HL) (to_bytes vers)) (unat HL + 4)
                     (concat (map encode_route rs))"
    by (rule fst_write_routes [OF fit])
  finally show ?thesis by (simp add: store_bytes_append length_to_bytes)
qed

lemma routes_message_write_frame:
  assumes "unat HL + 4 \<le> unat buf_len"
    and "i < unat HL \<or> unat buf_len \<le> i"
  shows "fst (routes_message_write HL mem buf_len vers rs) i = mem i"
proof -
  from assms(1) have hl: "\<not> buf_len < HL" by (simp add: word_less_nat_alt)
  then have "HL \<le> buf_len" by simp
  with assms(1) have u: "unat (buf_len - HL - 4) = unat buf_len - unat HL - 4"
    by (simp add: unat_sub word_le_nat_alt)
  let ?mem1 = "store_bytes mem (unat HL) (to_bytes vers)"
  let ?w = "write_routes ?mem1 (unat HL + 4) (buf_len - HL - 4) 4 rs"
  have "fst (routes_message_write HL mem buf_len vers rs) = fst ?w"
    using hl by (cases ?w) (auto simp: routes_message_write_def Let_def message_write_def
        split: sum.splits)
  moreover have "fst ?w i = ?mem1 i"
    using assms u by (intro write_routes_frame) auto
  moreover have "?mem1 i = mem i"
    using assms by (auto simp: store_bytes_apply length_to_bytes)
  ultimately show ?thesis by simp
qed

lemma routes_message_write_capacity:
  assumes "unat HL + 4 \<le> unat buf_len"
  shows "snd (routes_message_write HL mem buf_len vers rs) =
     (if unat HL + 4 + sum_list (map record_size rs) \<le> unat buf_len
      then Inr (of_nat (4 + sum_list (map record_size rs)))
      else Inl BufferTooSmall)"
proof -
  from assms have hl: "\<not> buf_len < HL" by (simp add: word_less_nat_alt)
  then have "HL \<le> buf_len" by simp
  with assms have u: "unat (buf_len - HL - 4) = unat buf_len - unat HL - 4"
    by (simp add: unat_sub word_le_nat_alt)
  show ?thesis using hl assms by (auto simp: snd_routes_message_write u)
qed


text \<open>
  C10. A route with a gateway is written into a remaining capacity of at least
  2 + address_width and less than 2 + 2 * address_width bytes: the call throws
  (\<open>BufferTooSmall\<close>) at the gateway's capacity check, after the tag byte, the
  prefix-length byte and the octets of the network address have been stored. Exactly
  these 2 + address_width bytes of the memory hold the record's fields; every byte
  before them and every byte from the gateway's position on is as it was.
\<close>

theorem gateway_check_after_address_written:
  assumes gw: "route_gateway_bytes r \<noteq> None"
    and lo: "2 + address_width r \<le> unat (m_buf_len v)"
    and hi: "unat (m_buf_len v) < 2 + 2 * address_width r"
  shows "snd (apply_visitor mem v r) = Inl BufferTooSmall \<and>
         fst (apply_visitor mem v r) (m_buf v) = route_tag r \<and>
         fst (apply_visitor mem v r) (m_buf v + 1) = route_prefix r \<and>
         (\<forall>i<address_width r.
            fst (apply_visitor mem v r) (m_buf v + 2 + i) = route_address_bytes r ! i) \<and>
         (\<forall>j. j < m_buf v \<or> m_buf v + 2 + address_width r \<le> j \<longrightarrow>
            fst (apply_visitor mem v r) j = mem j)"
proof (cases r)
  case (Route_v4 ir)
  with gw obtain g where g: "gateway ir = Some g" by auto
  from lo hi Route_v4 have a: "\<not> m_buf_len v < 6" "m_buf_len v < 10"
    by (simp_all add: word_less_nat_alt)
  have res: "apply_visitor mem v r =
    (store_bytes (mem(m_buf v := route_tag r, m_buf v + 1 := route_prefix r)) (m_buf v + 2)
       (route_address_bytes r), Inl BufferTooSmall)"
    using a g by (simp add: Route_v4 write_ip_route_def Let_def length_to_bytes)
  show ?thesis
    unfolding res using Route_v4 by (simp add: store_bytes_apply length_to_bytes)
next
  case (Route_v6 ir)
  with gw obtain g where g: "gateway ir = Some g" by auto
  from lo hi Route_v6 have a: "\<not> m_buf_len v < 18" "m_buf_len v < 34"
    by (simp_all add: word_less_nat_alt)
  have res: "apply_visitor mem v r =
    (store_bytes (mem(m_buf v := route_tag r, m_buf v + 1 := route_prefix r)) (m_buf v + 2)
       (route_address_bytes r), Inl BufferTooSmall)"
    using a g by (simp add: Route_v6 write_ip_route_def Let_def length_to_bytes)
  show ?thesis
    unfolding res using Route_v6 by (simp add: store_bytes_apply length_to_bytes)
qed

text \<open>
  The route 10.0.0.0/8 via 10.0.0.1 and seven bytes of capacity: the six bytes of tag,
  prefix length and network address are stored, the gateway is not.
\<close>

theorem gateway_check_after_address_written_witness:
  "route_gateway_bytes
     (Route_v4 \<lparr>network_address = \<lparr>address = 0x0A000000, prefix_length = 8\<rparr>,
                gateway = Some 0x0A000001\<rparr>) \<noteq> None \<and>
   2 + address_width
     (Route_v4 \<lparr>network_address = \<lparr>address = 0x0A000000, prefix_length = 8\<rparr>,
                gateway = Some 0x0A000001\<rparr>) \<le> unat (m_buf_len \<lparr>m_buf = 8, m_buf_len = 7\<rparr>) \<and>
   unat (m_buf_len \<lparr>m_buf = 8, m_buf_len = 7\<rparr>) < 2 + 2 * address_width
     (Route_v4 \<lparr>network_address = \<lparr>address = 0x0A000000, prefix_length = 8\<rparr>,
                gateway = Some 0x0A000001\<rparr>) \<and>
   snd (apply_visitor (\<lambda>_. 0) \<lparr>m_buf = 8, m_buf_len = 7\<rparr>
     (Route_v4 \<lparr>network_address = \<lparr>address = 0x0A000000, prefix_length = 8\<rparr>,
                gateway = Some 0x0A000001\<rparr>)) = Inl BufferTooSmall \<and>
   map (fst (apply_visitor (\<lambda>_. 0) \<lparr>m_buf = 8, m_buf_len = 7\<rparr>
     (Route_v4 \<lparr>network_address = \<lparr>address = 0x0A000000, prefix_length = 8\<rparr>,
                gateway = Some 0x0A000001\<rparr>))) [7, 8, 9, 10, 11, 12, 13, 14, 15] =
     [0, 2, 8, 10, 0, 0, 0, 0, 0]"
  using gateway_check_after_address_written
    [of "Route_v4 \<lparr>network_address = \<lparr>address = 0x0A000000, prefix_length = 8\<rparr>,
                    gateway = Some 0x0A000001\<rparr>" "\<lparr>m_buf = 8, m_buf_len = 7\<rparr>" "\<lambda>_. 0"]
  by (simp add: write_ip_route_def to_bytes_def upt_rec)

section \<open>The reader\<close>

lemma unat_of_nat_small:
  "n \<le> 64 \<Longrightarrow> unat (of_nat n :: size_t) = n"
  by (simp add: unat_of_nat)

lemma word_less_of_nat_small:
  "n \<le> 64 \<Longrightarrow> (l :: size_t) < of_nat n \<longleftrightarrow> unat l < n"
  by (simp add: word_less_nat_alt unat_of_nat_small)

lemma unat_sub_of_nat_small:
  "n \<le> 64 \<Longrightarrow> n \<le> unat (l :: size_t) \<Longrightarrow> unat (l - of_nat n) = unat l - n"
  by (simp add: unat_sub word_le_nat_alt unat_of_nat_small)

lemma representation_update_eq:
  "v\<lparr>m_buf := a, m_buf_len := b\<rparr> = \<lparr>m_buf = a, m_buf_len = b\<rparr>"
  by (cases v) simp

lemma read_next_ip_route_T_eq:
  fixes mem :: memory and g :: bool and v :: ip_network_address_representation
  defines "N \<equiv> LENGTH('a::len) div 8"
  defines "k \<equiv> 1 + N + (if g then N else 0)"
  assumes small: "LENGTH('a) \<le> 128"
  shows "(read_next_ip_route_T mem g v ::
            error + ('a word base_ip_route \<times> ip_network_address_representation)) =
    (if unat (m_buf_len v) < k then Inl TruncatedRecord
     else Inr (\<lparr>network_address =
                  \<lparr>address = from_bytes (load_bytes mem (m_buf v + 1) N),
                   prefix_length = ucast (mem (m_buf v))\<rparr>,
                gateway = (if g then Some (from_bytes (load_bytes mem (m_buf v + 1 + N) N))
                           else None)\<rparr>,
               \<lparr>m_buf = m_buf v + k, m_buf_len = m_buf_len v - of_nat k\<rparr>))"
proof -
  have N: "N \<le> 16" using small by (simp add: N_def)
  let ?l = "m_buf_len v"
  show ?thesis
  proof (cases "?l = 0")
    case True
    then show ?thesis by (simp add: read_next_ip_route_T_def k_def)
  next
    case nz: False
    then have u1: "unat (?l - 1) = unat ?l - 1" and pos: "0 < unat ?l"
      by (simp_all add: unat_minus_one unat_gt_0)
    have c1: "(?l - 1 < of_nat N) \<longleftrightarrow> unat ?l < 1 + N"
      using N pos by (simp add: word_less_of_nat_small u1) arith
    show ?thesis
    proof (cases "unat ?l < 1 + N")
      case True
      then show ?thesis using nz c1
        by (simp add: read_next_ip_route_T_def Let_def k_def flip: N_def)
    next
      case ge1: False
      then have u2: "unat (?l - 1 - of_nat N) = unat ?l - 1 - N"
        using N u1 by (simp add: unat_sub_of_nat_small)
      have c2: "(?l - 1 - of_nat N < of_nat N) \<longleftrightarrow> unat ?l < 1 + N + N"
        using N ge1 by (simp add: word_less_of_nat_small u2) arith
      show ?thesis
      proof (cases g)
        case False
        then show ?thesis using nz c1 ge1
          by (simp add: read_next_ip_route_T_def Let_def k_def representation_update_eq
              flip: N_def)
      next
        case True
        then show ?thesis using nz c1 ge1 c2
          by (simp add: read_next_ip_route_T_def Let_def k_def representation_update_eq
              algebra_simps flip: N_def)
      qed
    qed
  qed
qed

lemma read_next_ip_route_eq:
  "read_next_ip_route mem v =
    (let t = mem (m_buf v); p = m_buf v; l = m_buf_len v in
     if l = 0 then Inr None
     else if t = 1 \<or> t = 2 then
       (if unat l < (if t = 2 then 10 else 6) then Inl TruncatedRecord
        else Inr (Some (Route_v4
               \<lparr>network_address =
                  \<lparr>address = from_bytes (load_bytes mem (p + 2) 4),
                   prefix_length = ucast (mem (p + 1))\<rparr>,
                gateway = (if t = 2 then Some (from_bytes (load_bytes mem (p + 6) 4)) else None)\<rparr>,
               \<lparr>m_buf = p + (if t = 2 then 10 else 6),
                m_buf_len = l - (if t = 2 then 10 else 6)\<rparr>)))
     else if t = 3 \<or> t = 4 then
       (if unat l < 18 then Inl TruncatedRecord
        else Inr (Some (Route_v6
               \<lparr>network_address =
                  \<lparr>address = from_bytes (load_bytes mem (p + 2) 16),
                   prefix_length = ucast (mem (p + 1))\<rparr>,
                gateway = None\<rparr>,
               \<lparr>m_buf = p + 18, m_buf_len = l - 18\<rparr>)))
     else Inl UnknownRecordType)"
proof (cases "m_buf_len v = 0")
  case True
  then show ?thesis by (simp add: read_next_ip_route_def)
next
  case nz: False
  then have u1: "unat (m_buf_len v - 1) = unat (m_buf_len v) - 1" and pos: "0 < unat (m_buf_len v)"
    by (simp_all add: unat_minus_one unat_gt_0)
  have lt: "unat (m_buf_len v) - Suc 0 < k \<longleftrightarrow> unat (m_buf_len v) < Suc k" for k
    using pos by arith
  consider "mem (m_buf v) = 1" | "mem (m_buf v) = 2" | "mem (m_buf v) = 3" | "mem (m_buf v) = 4"
    | "mem (m_buf v) \<notin> {1, 2, 3, 4}" by auto
  then show ?thesis
  proof cases
    case 1
    then show ?thesis using nz
      by (simp add: read_next_ip_route_def Let_def read_next_ip_route_T_eq u1 lt ac_simps)
  next
    case 2
    then show ?thesis using nz
      by (simp add: read_next_ip_route_def Let_def read_next_ip_route_T_eq u1 lt ac_simps)
  next
    case 3
    then show ?thesis using nz
      by (simp add: read_next_ip_route_def Let_def read_next_ip_route_T_eq u1 lt ac_simps)
  next
    case 4
    then show ?thesis using nz
      by (simp add: read_next_ip_route_def Let_def read_next_ip_route_T_eq u1 lt ac_simps)
  next
    case 5
    then show ?thesis using nz
      by (simp add: read_next_ip_route_def Let_def)
  qed
qed

text \<open>
  A record with the tag 1, 2 or 3 that is cut short makes the reader and the decode
  loop throw \<open>TruncatedRecord\<close>; with the tag 4 this holds only for the first 18 bytes.
\<close>

lemma torn_record_rejected:
  assumes "m_buf_len v \<noteq> 0"
    and "mem (m_buf v) = 1 \<and> unat (m_buf_len v) < 6 \<or>
         mem (m_buf v) = 2 \<and> unat (m_buf_len v) < 10 \<or>
         (mem (m_buf v) = 3 \<or> mem (m_buf v) = 4) \<and> unat (m_buf_len v) < 18"
  shows "read_next_ip_route mem v = Inl TruncatedRecord"
    and "read_routes mem v result = Inl TruncatedRecord"
proof -
  show r: "read_next_ip_route mem v = Inl TruncatedRecord"
    using assms by (auto simp: read_next_ip_route_eq Let_def)
  show "read_routes mem v result = Inl TruncatedRecord"
    by (simp add: read_routes.simps [of mem v result] r)
qed

lemma read_next_ip_route_None_iff:
  "read_next_ip_route mem v = Inr None \<longleftrightarrow> m_buf_len v = 0"
  by (auto simp: read_next_ip_route_def Let_def split: sum.splits)

lemma read_next_ip_route_T_error:
  "read_next_ip_route_T mem g v = Inl e \<Longrightarrow> e = TruncatedRecord"
  by (auto simp: read_next_ip_route_T_def Let_def split: if_splits)

lemma read_next_ip_route_error:
  "read_next_ip_route mem v = Inl e \<Longrightarrow> e = TruncatedRecord \<or> e = UnknownRecordType"
  by (auto simp: read_next_ip_route_def Let_def split: if_splits sum.splits
      dest: read_next_ip_route_T_error)

lemma read_routes_error:
  "read_routes mem v result = Inl e \<Longrightarrow> e = TruncatedRecord \<or> e = UnknownRecordType"
proof (induction mem v result rule: read_routes.induct)
  case (1 mem v result)
  show ?case
  proof (cases "read_next_ip_route mem v")
    case (Inl e')
    with "1.prems" have "e' = e" by (simp add: read_routes.simps [of mem v result])
    with Inl show ?thesis by (auto dest: read_next_ip_route_error)
  next
    case (Inr x)
    show ?thesis
    proof (cases x)
      case None
      with Inr "1.prems" show ?thesis by (simp add: read_routes.simps [of mem v result])
    next
      case (Some p)
      obtain ir v' where p: "p = (ir, v')" by (cases p)
      from Inr Some p "1.prems" have "read_routes mem v' (insert ir result) = Inl e"
        by (simp add: read_routes.simps [of mem v result])
      with "1.IH" [OF Inr Some p [symmetric]] show ?thesis by simp
    qed
  qed
qed

lemma encoded_fields:
  assumes enc: "load_bytes mem p (record_size r) = encode_route r"
  shows "mem p = route_tag r" "mem (Suc p) = route_prefix r"
    "load_bytes mem (Suc (Suc p)) (address_width r) = route_address_bytes r"
    "route_gateway_bytes r = Some g \<Longrightarrow>
       load_bytes mem (Suc (Suc p) + address_width r) (address_width r) = g"
proof -
  let ?gw = "case route_gateway_bytes r of None \<Rightarrow> [] | Some g \<Rightarrow> g"
  let ?rest = "route_prefix r # route_address_bytes r @ ?gw"
  have "load_bytes mem p (length (route_tag r # ?rest)) = route_tag r # ?rest"
    using enc by (simp add: encode_route_def flip: length_encode_route)
  from load_bytes_Cons_eq [OF this]
  have t: "mem p = route_tag r" and 1: "load_bytes mem (Suc p) (length ?rest) = ?rest"
    by simp_all
  from load_bytes_Cons_eq [OF 1]
  have pr: "mem (Suc p) = route_prefix r"
    and 2: "load_bytes mem (Suc (Suc p)) (length (route_address_bytes r @ ?gw)) =
            route_address_bytes r @ ?gw"
    by simp_all
  from load_bytes_append_eq [OF 2]
  have a: "load_bytes mem (Suc (Suc p)) (address_width r) = route_address_bytes r"
    and 3: "load_bytes mem (Suc (Suc p) + address_width r) (length ?gw) = ?gw"
    by (simp_all add: length_route_address_bytes)
  show "mem p = route_tag r" by (rule t)
  show "mem (Suc p) = route_prefix r" by (rule pr)
  show "load_bytes mem (Suc (Suc p)) (address_width r) = route_address_bytes r" by (rule a)
  show "load_bytes mem (Suc (Suc p) + address_width r) (address_width r) = g"
    if "route_gateway_bytes r = Some g"
    using 3 that by (simp add: length_route_gateway_bytes)
qed

lemma read_next_ip_route_encoded:
  assumes enc: "load_bytes mem p (record_size r) = encode_route r"
    and fit: "record_size r \<le> unat l"
    and dec: "decodable r"
  shows "read_next_ip_route mem \<lparr>m_buf = p, m_buf_len = l\<rparr> =
           Inr (Some (r, \<lparr>m_buf = p + record_size r, m_buf_len = l - of_nat (record_size r)\<rparr>))"
proof -
  note f = encoded_fields [OF enc]
  from fit record_size_bounds [of r] have pos: "6 \<le> unat l" by simp
  then have nz: "l \<noteq> 0" by auto
  then have u1: "unat (l - 1) = unat l - 1" by (simp add: unat_minus_one)
  show ?thesis
  proof (cases r)
    case (Route_v4 ir)
    have T: "(read_next_ip_route_T mem g \<lparr>m_buf = Suc p, m_buf_len = l - 1\<rparr> ::
                error + (address_v4 base_ip_route \<times> ip_network_address_representation)) =
       (if unat l - 1 < 5 + (if g then 4 else 0) then Inl TruncatedRecord
        else Inr (\<lparr>network_address =
                  \<lparr>address = from_bytes (load_bytes mem (Suc (Suc p)) 4),
                   prefix_length = ucast (mem (Suc p))\<rparr>,
                gateway = (if g then Some (from_bytes (load_bytes mem (Suc (Suc p) + 4) 4))
                           else None)\<rparr>,
               \<lparr>m_buf = Suc p + (5 + (if g then 4 else 0)),
                m_buf_len = l - 1 - of_nat (5 + (if g then 4 else 0))\<rparr>))" for g
      by (simp add: read_next_ip_route_T_eq u1)
    show ?thesis
    proof (cases "gateway ir")
      case None
      then show ?thesis using Route_v4 f(1-3) dec nz fit
        by (simp add: read_next_ip_route_def T record_size_def from_bytes_to_bytes
            ucast_prefix_length)
    next
      case (Some gw)
      then show ?thesis using Route_v4 f(1-3) f(4) [of "to_bytes gw"] dec nz fit
        by (simp add: read_next_ip_route_def T record_size_def from_bytes_to_bytes
            ucast_prefix_length)
    qed
  next
    case (Route_v6 ir)
    have T: "(read_next_ip_route_T mem False \<lparr>m_buf = Suc p, m_buf_len = l - 1\<rparr> ::
                error + (address_v6 base_ip_route \<times> ip_network_address_representation)) =
       (if unat l - 1 < 17 then Inl TruncatedRecord
        else Inr (\<lparr>network_address =
                  \<lparr>address = from_bytes (load_bytes mem (Suc (Suc p)) 16),
                   prefix_length = ucast (mem (Suc p))\<rparr>,
                gateway = None\<rparr>,
               \<lparr>m_buf = Suc p + 17, m_buf_len = l - 1 - 17\<rparr>))"
      by (simp add: read_next_ip_route_T_eq u1)
    from dec Route_v6 have "gateway ir = None" by simp
    then show ?thesis using Route_v6 f(1-3) dec nz fit
      by (simp add: read_next_ip_route_def T record_size_def from_bytes_to_bytes
          ucast_prefix_length)
  qed
qed

lemma read_routes_encoded:
  assumes "load_bytes mem p (length (concat (map encode_route rs))) = concat (map encode_route rs)"
    and "unat l = sum_list (map record_size rs)"
    and "\<forall>r\<in>set rs. decodable r"
  shows "read_routes mem \<lparr>m_buf = p, m_buf_len = l\<rparr> acc = Inr (acc \<union> set rs)"
  using assms
proof (induction rs arbitrary: p l acc)
  case Nil
  then have "l = 0" by (simp add: unat_eq_0)
  then show ?case
    by (simp add: read_routes.simps [of mem "\<lparr>m_buf = p, m_buf_len = 0\<rparr>" acc]
        read_next_ip_route_def)
next
  case (Cons r rs)
  let ?rest = "concat (map encode_route rs)"
  from Cons.prems(1) have "load_bytes mem p (length (encode_route r @ ?rest)) = encode_route r @ ?rest"
    by simp
  from load_bytes_append_eq [OF this]
  have enc: "load_bytes mem p (record_size r) = encode_route r"
    and rest: "load_bytes mem (p + record_size r) (length ?rest) = ?rest"
    by (simp_all add: length_encode_route)
  from Cons.prems(2) have fit: "record_size r \<le> unat l" by simp
  from Cons.prems(3) have dec: "decodable r" and decs: "\<forall>r\<in>set rs. decodable r" by simp_all
  have len: "unat (l - of_nat (record_size r)) = sum_list (map record_size rs)"
    using Cons.prems(2) by (simp add: unat_sub_record_size [OF fit])
  have "read_routes mem \<lparr>m_buf = p, m_buf_len = l\<rparr> acc =
        read_routes mem \<lparr>m_buf = p + record_size r, m_buf_len = l - of_nat (record_size r)\<rparr>
          (insert r acc)"
    by (simp add: read_routes.simps [of mem "\<lparr>m_buf = p, m_buf_len = l\<rparr>" acc]
        read_next_ip_route_encoded [OF enc fit dec])
  also have "\<dots> = Inr (insert r acc \<union> set rs)"
    by (rule Cons.IH [OF rest len decs])
  finally show ?case by simp
qed


text \<open>
  C5. When the reader is at a tag byte (at least one byte is left) and that byte is
  none of 1, 2, 3, 4, \<open>read_next_ip_route\<close> throws \<open>UnknownRecordType\<close>, and so does
  the decode loop from that position, whatever it has collected so far. In
  particular \<open>routes\<close> fails with \<open>UnknownRecordType\<close> when the first record byte
  of the payload is such a value.
\<close>

theorem unknown_tag_rejected:
  "(m_buf_len v \<noteq> 0 \<and> mem (m_buf v) \<notin> {1, 2, 3, 4} \<longrightarrow>
      read_next_ip_route mem v = Inl UnknownRecordType \<and>
      read_routes mem v result = Inl UnknownRecordType) \<and>
   (m_routes_cache m = None \<and> length_m m - 4 \<noteq> 0 \<and> payload m 4 \<notin> {1, 2, 3, 4} \<longrightarrow>
      routes m = (m, Inl UnknownRecordType))"
proof -
  have a: "read_next_ip_route mem' v' = Inl UnknownRecordType"
    if "m_buf_len v' \<noteq> 0" "mem' (m_buf v') \<notin> {1, 2, 3, 4}" for mem' v'
    using that by (simp add: read_next_ip_route_def Let_def)
  have b: "read_routes mem' v' result' = Inl UnknownRecordType"
    if "m_buf_len v' \<noteq> 0" "mem' (m_buf v') \<notin> {1, 2, 3, 4}" for mem' v' result'
    using a [of v' mem', OF that] by (simp add: read_routes.simps [of mem' v' result'])
  have c: "routes m = (m, Inl UnknownRecordType)"
    if "m_routes_cache m = None" "length_m m - 4 \<noteq> 0" "payload m 4 \<notin> {1, 2, 3, 4}"
    using that b [of "\<lparr>m_buf = 4, m_buf_len = length_m m - 4\<rparr>" "payload m" "{}"]
    by (simp add: routes_def)
  from a b c show ?thesis by blast
qed

theorem unknown_tag_rejected_witness:
  "m_buf_len \<lparr>m_buf = 4, m_buf_len = 1\<rparr> \<noteq> 0 \<and>
   buffer_of [0, 0, 0, 1, 5] (m_buf \<lparr>m_buf = 4, m_buf_len = 1\<rparr>) \<notin> {1, 2, 3, 4} \<and>
   m_routes_cache \<lparr>payload = buffer_of [0, 0, 0, 1, 5], length_m = 5, m_routes_cache = None\<rparr> = None \<and>
   length_m \<lparr>payload = buffer_of [0, 0, 0, 1, 5], length_m = 5, m_routes_cache = None\<rparr> - 4 \<noteq> 0 \<and>
   payload \<lparr>payload = buffer_of [0, 0, 0, 1, 5], length_m = 5, m_routes_cache = None\<rparr> 4
     \<notin> {1, 2, 3, 4} \<and>
   read_routes (buffer_of [0, 0, 0, 1, 5]) \<lparr>m_buf = 4, m_buf_len = 1\<rparr> {} = Inl UnknownRecordType \<and>
   snd (routes \<lparr>payload = buffer_of [0, 0, 0, 1, 5], length_m = 5, m_routes_cache = None\<rparr>)
     = Inl UnknownRecordType"
  using unknown_tag_rejected
    [of "\<lparr>m_buf = 4, m_buf_len = 1\<rparr>" "buffer_of [0, 0, 0, 1, 5]" "{}"
        "\<lparr>payload = buffer_of [0, 0, 0, 1, 5], length_m = 5, m_routes_cache = None\<rparr>"]
  by (simp add: buffer_of_def)

section \<open>The cache and the constructors\<close>

lemma routes_cached: "m_routes_cache m = Some rs \<Longrightarrow> routes m = (m, Inr rs)"
  by (simp add: routes_def)

lemma routes_Inr_cache:
  assumes "routes m = (m', Inr rs)"
  shows "m_routes_cache m' = Some rs"
proof (cases "m_routes_cache m")
  case None
  with assms show ?thesis
    by (auto simp: routes_def Let_def split: sum.splits)
next
  case (Some c)
  with assms show ?thesis by (auto simp: routes_def)
qed

lemma routes_Inl_unchanged:
  assumes "routes m = (m', Inl e)"
  shows "m' = m \<and> m_routes_cache m = None \<and>
         read_routes (payload m) \<lparr>m_buf = 4, m_buf_len = length_m m - 4\<rparr> {} = Inl e"
proof (cases "m_routes_cache m")
  case None
  with assms show ?thesis
    by (auto simp: routes_def Let_def split: sum.splits)
next
  case (Some c)
  with assms show ?thesis by (auto simp: routes_def)
qed

text \<open>
  C7. The first access with an empty cache runs the decode loop over the payload and,
  when it succeeds, stores its result in the cache. After any successful access the
  cache holds the result returned, the next access returns the same set, and it
  returns it whatever the payload and the declared length are then: the buffer is not
  read again. A message that a constructor has returned has its cache filled with the
  result of the one decode run at construction.
\<close>

theorem routes_memoized:
  "(m_routes_cache m = None \<and>
    read_routes (payload m) \<lparr>m_buf = 4, m_buf_len = length_m m - 4\<rparr> {} = Inr rs \<longrightarrow>
      routes m = (m\<lparr>m_routes_cache := Some rs\<rparr>, Inr rs)) \<and>
   (routes m0 = (m1, Inr rs1) \<longrightarrow>
      m_routes_cache m1 = Some rs1 \<and>
      routes m1 = (m1, Inr rs1) \<and>
      (\<forall>p l. routes (m1\<lparr>payload := p, length_m := l\<rparr>) =
               (m1\<lparr>payload := p, length_m := l\<rparr>, Inr rs1))) \<and>
   (routes_message_of_message msg = Inr m2 \<longrightarrow>
      (\<exists>rs2. read_routes (payload msg) \<lparr>m_buf = 4, m_buf_len = length_m msg - 4\<rparr> {} = Inr rs2 \<and>
             m_routes_cache m2 = Some rs2 \<and> routes m2 = (m2, Inr rs2)))"
proof (intro conjI impI)
  assume "m_routes_cache m = None \<and>
    read_routes (payload m) \<lparr>m_buf = 4, m_buf_len = length_m m - 4\<rparr> {} = Inr rs"
  then show "routes m = (m\<lparr>m_routes_cache := Some rs\<rparr>, Inr rs)"
    by (simp add: routes_def)
next
  assume r: "routes m0 = (m1, Inr rs1)"
  show c: "m_routes_cache m1 = Some rs1" by (rule routes_Inr_cache [OF r])
  show "routes m1 = (m1, Inr rs1)" by (rule routes_cached [OF c])
  show "\<forall>p l. routes (m1\<lparr>payload := p, length_m := l\<rparr>) =
               (m1\<lparr>payload := p, length_m := l\<rparr>, Inr rs1)"
    using c by (simp add: routes_cached)
next
  assume a: "routes_message_of_message msg = Inr m2"
  let ?m = "\<lparr>payload = payload msg, length_m = length_m msg, m_routes_cache = None\<rparr>"
  let ?d = "read_routes (payload msg) \<lparr>m_buf = 4, m_buf_len = length_m msg - 4\<rparr> {}"
  from a obtain rs2 where d: "?d = Inr rs2" and m2: "m2 = ?m\<lparr>m_routes_cache := Some rs2\<rparr>"
    by (cases ?d) (auto simp: routes_message_of_message_def routes_def)
  have "m_routes_cache m2 = Some rs2" using m2 by simp
  then show "\<exists>rs2. ?d = Inr rs2 \<and> m_routes_cache m2 = Some rs2 \<and> routes m2 = (m2, Inr rs2)"
    using d by (simp add: routes_cached)
qed

theorem routes_memoized_witness:
  "m_routes_cache (message_at 0 payload_one_ipv4 10) = None \<and>
   read_routes (payload (message_at 0 payload_one_ipv4 10))
     \<lparr>m_buf = 4, m_buf_len = length_m (message_at 0 payload_one_ipv4 10) - 4\<rparr> {} = Inr {route_10} \<and>
   routes (message_at 0 payload_one_ipv4 10) =
     ((message_at 0 payload_one_ipv4 10)\<lparr>m_routes_cache := Some {route_10}\<rparr>, Inr {route_10}) \<and>
   routes_message_of_message \<lparr>payload = payload_one_ipv4, length_m = 10\<rparr> =
     Inr ((message_at 0 payload_one_ipv4 10)\<lparr>m_routes_cache := Some {route_10}\<rparr>) \<and>
   routes ((message_at 0 payload_one_ipv4 10)\<lparr>m_routes_cache := Some {route_10}\<rparr>) =
     ((message_at 0 payload_one_ipv4 10)\<lparr>m_routes_cache := Some {route_10}\<rparr>, Inr {route_10}) \<and>
   routes ((message_at 0 payload_one_ipv4 10)
             \<lparr>m_routes_cache := Some {route_10}, payload := payload_bad_tag, length_m := 5\<rparr>) =
     ((message_at 0 payload_one_ipv4 10)
        \<lparr>m_routes_cache := Some {route_10}, payload := payload_bad_tag, length_m := 5\<rparr>,
      Inr {route_10})"
proof -
  have d: "read_routes payload_one_ipv4 \<lparr>m_buf = 4, m_buf_len = 6\<rparr> {} = Inr {route_10}"
    by (simp add: eval_defs example_defs)
  have m: "message_at 0 payload_one_ipv4 10 =
           \<lparr>payload = payload_one_ipv4, length_m = 10, m_routes_cache = None\<rparr>"
    by (simp add: message_at_def)
  show ?thesis
    using routes_memoized
      [of "message_at 0 payload_one_ipv4 10" "{route_10}"
          "message_at 0 payload_one_ipv4 10"
          "(message_at 0 payload_one_ipv4 10)\<lparr>m_routes_cache := Some {route_10}\<rparr>" "{route_10}"
          "\<lparr>payload = payload_one_ipv4, length_m = 10\<rparr>"
          "(message_at 0 payload_one_ipv4 10)\<lparr>m_routes_cache := Some {route_10}\<rparr>"]
    by (simp add: m d routes_def routes_message_of_message_def)
qed

text \<open>
  C8. A failing call aborts the whole operation. When \<open>routes\<close> fails, the message is
  as it was and its cache is empty: no partial route set is returned or kept. The
  encoder returns either \<open>BufferTooSmall\<close> or the count of all bytes of the payload,
  4 plus the size of every record, never a count of the records written before the
  failure. A payload on which the decode loop fails makes both constructors fail with
  that error, and the accessor of a message that a constructor has returned succeeds.
\<close>

theorem failure_aborts_operation:
  "(routes m = (m', Inl e) \<longrightarrow> m' = m \<and> m_routes_cache m' = None) \<and>
   (snd (routes_message_write HL mem buf_len vers rs) = Inl BufferTooSmall \<or>
    snd (routes_message_write HL mem buf_len vers rs) =
      Inr (4 + of_nat (sum_list (map record_size rs)))) \<and>
   (read_routes (payload msg) \<lparr>m_buf = 4, m_buf_len = length_m msg - 4\<rparr> {} = Inl e2 \<longrightarrow>
      routes_message_of_message msg = Inl e2 \<and>
      (message_ctor buf len = Inr msg \<longrightarrow> routes_message_of_buffer message_ctor buf len = Inl e2)) \<and>
   (routes_message_of_message msg3 = Inr m3 \<longrightarrow> (\<exists>rs3. routes m3 = (m3, Inr rs3)))"
proof (intro conjI impI)
  assume "routes m = (m', Inl e)"
  from routes_Inl_unchanged [OF this] show "m' = m" "m_routes_cache m' = None" by simp_all
next
  show "snd (routes_message_write HL mem buf_len vers rs) = Inl BufferTooSmall \<or>
    snd (routes_message_write HL mem buf_len vers rs) =
      Inr (4 + of_nat (sum_list (map record_size rs)))"
    by (simp only: snd_routes_message_write split: if_splits) simp
next
  assume d: "read_routes (payload msg) \<lparr>m_buf = 4, m_buf_len = length_m msg - 4\<rparr> {} = Inl e2"
  then show r: "routes_message_of_message msg = Inl e2"
    by (simp add: routes_message_of_message_def routes_def)
  assume "message_ctor buf len = Inr msg"
  then show "routes_message_of_buffer message_ctor buf len = Inl e2"
    using r by (simp add: routes_message_of_buffer_def)
next
  assume a: "routes_message_of_message msg3 = Inr m3"
  let ?m = "\<lparr>payload = payload msg3, length_m = length_m msg3, m_routes_cache = None\<rparr>"
  from a obtain rs3 where "routes ?m = (m3, Inr rs3)"
    by (cases "routes ?m") (auto simp: routes_message_of_message_def split: sum.splits)
  from routes_Inr_cache [OF this] have "m_routes_cache m3 = Some rs3" .
  then show "\<exists>rs3. routes m3 = (m3, Inr rs3)" by (auto simp: routes_cached)
qed

theorem failure_aborts_operation_witness:
  "routes (message_at 0 payload_bad_tag 5) = (message_at 0 payload_bad_tag 5, Inl UnknownRecordType) \<and>
   m_routes_cache (message_at 0 payload_bad_tag 5) = None \<and>
   read_routes (payload \<lparr>payload = payload_bad_tag, length_m = 5\<rparr>)
     \<lparr>m_buf = 4, m_buf_len = length_m \<lparr>payload = payload_bad_tag, length_m = 5\<rparr> - 4\<rparr> {}
     = Inl UnknownRecordType \<and>
   routes_message_of_message \<lparr>payload = payload_bad_tag, length_m = 5\<rparr> = Inl UnknownRecordType \<and>
   example_message_ctor buffer_bad_tag 9 =
     Inr \<lparr>payload = payload_bad_tag, length_m = 5\<rparr> \<and>
   routes_message_of_buffer example_message_ctor buffer_bad_tag 9 =
     Inl UnknownRecordType \<and>
   routes_message_of_message \<lparr>payload = payload_one_ipv4, length_m = 10\<rparr> =
     Inr ((message_at 0 payload_one_ipv4 10)\<lparr>m_routes_cache := Some {route_10}\<rparr>) \<and>
   snd (routes ((message_at 0 payload_one_ipv4 10)\<lparr>m_routes_cache := Some {route_10}\<rparr>)) =
     Inr {route_10}"
proof -
  have p: "(\<lambda>i. buffer_bad_tag (4 + i)) = payload_bad_tag"
  proof (rule ext)
    fix i :: nat
    show "buffer_bad_tag (4 + i) = payload_bad_tag i"
    proof (cases "i < 5")
      case True
      then have "i = 0 \<or> i = 1 \<or> i = 2 \<or> i = 3 \<or> i = 4" by arith
      then show ?thesis
        by (elim disjE) (simp_all add: buffer_bad_tag_def store_bytes_apply payload_bad_tag_def buffer_of_def)
    next
      case False
      then show ?thesis
        by (simp add: buffer_bad_tag_def store_bytes_apply payload_bad_tag_def buffer_of_def)
    qed
  qed
  have c: "example_message_ctor buffer_bad_tag 9 =
     Inr \<lparr>payload = payload_bad_tag, length_m = 5\<rparr>"
    unfolding example_message_ctor_def p by simp
  have d: "read_routes payload_bad_tag \<lparr>m_buf = 4, m_buf_len = 1\<rparr> {} = Inl UnknownRecordType"
    by (simp add: eval_defs example_defs)
  have d1: "read_routes payload_one_ipv4 \<lparr>m_buf = 4, m_buf_len = 6\<rparr> {} = Inr {route_10}"
    by (simp add: eval_defs example_defs)
  show ?thesis
    using failure_aborts_operation
      [of "message_at 0 payload_bad_tag 5" "message_at 0 payload_bad_tag 5" UnknownRecordType
          4 "\<lambda>_. 0" 64 7 "[]"
          "\<lparr>payload = payload_bad_tag, length_m = 5\<rparr>" UnknownRecordType
          example_message_ctor buffer_bad_tag 9
          "\<lparr>payload = payload_one_ipv4, length_m = 10\<rparr>"
          "(message_at 0 payload_one_ipv4 10)\<lparr>m_routes_cache := Some {route_10}\<rparr>"]
    by (simp add: c d d1 message_at_def routes_def routes_message_of_message_def)
qed

text \<open>No call of \<open>routes\<close> fails with \<open>TruncatedHeader\<close>.\<close>

lemma routes_never_truncated_header: "snd (routes m) \<noteq> Inl TruncatedHeader"
proof
  assume a: "snd (routes m) = Inl TruncatedHeader"
  then obtain m' where "routes m = (m', Inl TruncatedHeader)" by (cases "routes m") simp
  then have "read_routes (payload m) \<lparr>m_buf = 4, m_buf_len = length_m m - 4\<rparr> {} = Inl TruncatedHeader"
    by (simp add: routes_Inl_unchanged)
  from read_routes_error [OF this] show False by simp
qed


section \<open>Unsigned arithmetic on the remaining length\<close>






section \<open>Round trip of the routes the reader can take back\<close>

text \<open>
  When every route of the list is \<open>decodable\<close> and the buffer has room for the header,
  the version and all records, the call succeeds with the count of the payload bytes,
  and the message with that payload and that declared length has the version written
  and the set of the routes written.
\<close>

lemma roundtrip_decodable:
  assumes dec: "\<forall>r\<in>set rs. decodable r"
    and hl: "HL \<le> buf_len"
    and cap: "4 + sum_list (map record_size rs) \<le> unat buf_len - unat HL"
  shows "snd (routes_message_write HL mem buf_len vers rs) =
           Inr (of_nat (4 + sum_list (map record_size rs))) \<and>
         version (message_at (unat HL) (fst (routes_message_write HL mem buf_len vers rs))
                   (of_nat (4 + sum_list (map record_size rs)))) = vers \<and>
         snd (routes (message_at (unat HL) (fst (routes_message_write HL mem buf_len vers rs))
                   (of_nat (4 + sum_list (map record_size rs))))) = Inr (set rs)"
proof -
  let ?total = "sum_list (map record_size rs)"
  let ?bytes = "concat (map encode_route rs)"
  let ?mem' = "fst (routes_message_write HL mem buf_len vers rs)"
  let ?n = "of_nat (4 + ?total) :: size_t"
  let ?m = "message_at (unat HL) ?mem' ?n"
  have lt: "4 + ?total < 2 ^ 64"
    using cap unsigned_less [of buf_len, where ?'a = nat] by simp
  from hl cap have u: "unat (buf_len - HL - 4) = unat buf_len - unat HL - 4"
    by (simp add: unat_sub word_le_nat_alt)
  have r1: "snd (routes_message_write HL mem buf_len vers rs) = Inr ?n"
    using hl cap u by (simp add: snd_routes_message_write not_less)
  have mem': "?mem' = store_bytes mem (unat HL) (to_bytes vers @ ?bytes)"
    by (rule fst_routes_message_write [OF hl cap])
  have len: "length ?bytes = ?total"
    by (induction rs) (simp_all add: length_encode_route)
  have "load_bytes ?mem' (unat HL) (length (to_bytes vers @ ?bytes)) = to_bytes vers @ ?bytes"
    unfolding mem' by (rule load_store_bytes)
  from load_bytes_append_eq [OF this]
  have v: "load_bytes ?mem' (unat HL) 4 = to_bytes vers"
    and b: "load_bytes ?mem' (unat HL + 4) (length ?bytes) = ?bytes"
    by (simp_all add: length_to_bytes)
  have r2: "version ?m = vers"
    using v by (simp add: version_def message_at_def load_bytes_shift from_bytes_to_bytes)
  have un: "unat (?n - 4) = ?total"
  proof -
    have "?n - 4 = of_nat ?total" by simp
    moreover have "?total < 2 ^ 64" using lt by simp
    ultimately show ?thesis by (simp only: unat_of_nat) simp
  qed
  have "read_routes (payload ?m) \<lparr>m_buf = 4, m_buf_len = ?n - 4\<rparr> {} = Inr ({} \<union> set rs)"
  proof (rule read_routes_encoded [OF _ un dec])
    show "load_bytes (payload ?m) 4 (length ?bytes) = ?bytes"
      using b by (simp add: message_at_def load_bytes_shift)
  qed
  then have r3: "snd (routes ?m) = Inr (set rs)"
    by (simp add: routes_def message_at_def)
  from r1 r2 r3 show ?thesis by simp
qed


section \<open>The comparison at line 216: IPv6 records with a gateway\<close>

text \<open>
  Both IPv6 cases of the switch call the reader with
  \<^verbatim>\<open>_type == INAT_IPV4_GATEWAY\<close>, which is false for the tags 3 and 4. The theorems of
  this section run the code at inputs with the tag 4.
\<close>

text \<open>
  C2. A record with the tag IPv6+gateway (4), a prefix length, sixteen address octets
  and sixteen gateway octets, with exactly these 34 bytes left. The reader returns a
  route without a gateway and stops after the network address: the sixteen gateway
  octets are still unread.
\<close>

theorem ipv6_gateway_tag_reads_no_gateway:
  "read_next_ip_route record_ipv6_gateway \<lparr>m_buf = 0, m_buf_len = 34\<rparr> =
     Inr (Some (route_2001_db8, \<lparr>m_buf = 18, m_buf_len = 16\<rparr>))"
  by (simp add: eval_defs example_defs)

text \<open>
  C6. A payload of version 1 and a torn record: the tag IPv6+gateway, a prefix length
  and sixteen address octets, and no byte of the gateway. The decode loop does not fail
  with \<open>TruncatedRecord\<close>: it returns the set of one route without a gateway.
\<close>

theorem torn_ipv6_gateway_record_accepted:
  "routes (message_at 0 payload_torn_ipv6_gateway 22) =
     ((message_at 0 payload_torn_ipv6_gateway 22)\<lparr>m_routes_cache := Some {route_2001_db8}\<rparr>,
      Inr {route_2001_db8})"
  by (simp add: eval_defs example_defs)

text \<open>
  C1. Version 7 and the set of the one route 2001:db8::/32 via fe80::1 are written into
  a zeroed buffer of 64 bytes behind a header of four bytes; the call returns 38. The
  message with that payload and the declared length 38 has the version 7, but its
  routes are not the set written: the reader takes the first gateway octet, 0xfe, for
  the tag of a next record and throws \<open>UnknownRecordType\<close>.
\<close>

theorem roundtrip_ipv6_gateway_fails:
  "snd (routes_message_write 4 (\<lambda>_. 0) 64 7 [route_2001_db8_via_fe80_1]) = Inr 38 \<and>
   version (message_at 4
     (fst (routes_message_write 4 (\<lambda>_. 0) 64 7 [route_2001_db8_via_fe80_1])) 38) = 7 \<and>
   snd (routes (message_at 4
     (fst (routes_message_write 4 (\<lambda>_. 0) 64 7 [route_2001_db8_via_fe80_1])) 38)) =
     Inl UnknownRecordType"
  by (simp add: eval_defs example_defs)

section \<open>The version field\<close>

text \<open>
  C3. A header of four bytes, a buffer of seven bytes, the version 0x01020304 and no
  route: the payload needs eight bytes. The call does not fail; it returns the count 4
  and has stored the last byte of the version at offset 7, the first byte behind the
  buffer.
\<close>

theorem version_written_past_capacity:
  "snd (routes_message_write 4 (\<lambda>_. 0) 7 0x01020304 []) = Inr 4 \<and>
   fst (routes_message_write 4 (\<lambda>_. 0) 7 0x01020304 []) 7 = 4"
  by (simp add: eval_defs)

text \<open>
  C4. A payload of two bytes, both zero, in a zeroed memory. \<open>routes\<close> does not fail with
  \<open>TruncatedHeader\<close>: it reads the byte at offset 4, behind the payload, as a tag and
  throws \<open>UnknownRecordType\<close>; \<open>version\<close> reads four bytes all the same.
\<close>

theorem short_payload_not_truncated_header:
  "routes (message_at 0 (buffer_of [0, 0]) 2) =
     (message_at 0 (buffer_of [0, 0]) 2, Inl UnknownRecordType) \<and>
   version (message_at 0 (buffer_of [0, 0]) 2) = 0"
  by (simp add: eval_defs)

end
